theory Spec2Isabelle
  imports Complex_Main
begin

section \<open>Spectral analysis of a point-process AR model (pp/core/spectral.py)\<close>

text \<open>
  The development embeds \<^verbatim>\<open>SpectralAnalyzer._compute_psd\<close> (and \<^verbatim>\<open>psd\<close>, which
  only forwards the model's \<^verbatim>\<open>theta\<close>, \<^verbatim>\<open>wn\<close> and \<^verbatim>\<open>k\<close> to it).

  Numbers. A NumPy \<^verbatim>\<open>float64\<close> is a real number or one of the non-finite values
  \<^verbatim>\<open>+inf\<close>, \<^verbatim>\<open>-inf\<close>, \<^verbatim>\<open>nan\<close>. A float64 product, quotient or power whose exact
  value is out of the float64 range overflows to an infinity. Rounding, underflow and
  the sign of zero are not modelled (a zero divisor is taken as \<^verbatim>\<open>+0.0\<close>), and the
  sum inside \<^verbatim>\<open>np.mean\<close> is exact. NumPy arithmetic never raises on a zero divisor: it
  warns and yields \<^verbatim>\<open>inf\<close> or \<^verbatim>\<open>nan\<close>, so every division of the source whose
  divisor can be zero is written out. A \<^verbatim>\<open>complex128\<close> is a complex number, or
  \<open>None\<close> when one of its components is \<^verbatim>\<open>inf\<close> or \<^verbatim>\<open>nan\<close> (which component, and
  whether it is \<^verbatim>\<open>inf\<close> or \<^verbatim>\<open>nan\<close>, is not tracked); complex arithmetic on finite
  operands is exact, and the real quantities derived from a complex value are options in
  the same sense. No theorem below concludes that a float64 or complex128 result is
  finite from the exactness of an operation that can overflow in the program.
\<close>

subsection \<open>Errors\<close>

text \<open>
  \<open>ValueError\<close>, \<open>TypeError\<close> and \<open>IndexError\<close> are the Python exceptions the
  statements of \<^verbatim>\<open>_compute_psd\<close> can raise. \<open>DegenerateModelError\<close>,
  \<open>InvalidSampleCountError\<close> and \<open>SingularPoleError\<close> are the names of the
  specification's error taxonomy; the source defines none of them and no equation below
  produces them. They are constructors only so that a statement can speak about them.
\<close>

datatype error =
    ValueError | TypeError | IndexError
  | DegenerateModelError | InvalidSampleCountError | SingularPoleError

subsection \<open>float64 with its non-finite values\<close>

datatype float64 = Fin real | PInf | NInf | NaN

definition signed_inf :: "real \<Rightarrow> float64" where
  \<comment> \<open>the infinity with the sign of \<open>s\<close>; \<^verbatim>\<open>nan\<close> when \<open>s\<close> is zero (\<^verbatim>\<open>0 * inf\<close>, \<^verbatim>\<open>0 / 0\<close>)\<close>
  "signed_inf s = (if 0 < s then PInf else if s < 0 then NInf else NaN)"

definition float_max :: real where
  \<comment> \<open>the overflow threshold of round-to-nearest: the largest float64,
      \<open>2\<^sup>1\<^sup>0\<^sup>2\<^sup>4 - 2\<^sup>9\<^sup>7\<^sup>1\<close>, plus half a unit in its last place\<close>
  "float_max = 2 ^ 1024 - 2 ^ 970"

definition overflow :: "real \<Rightarrow> float64" where
  \<comment> \<open>the float64 an exact finite result becomes\<close>
  "overflow v = (if \<bar>v\<bar> < float_max then Fin v else signed_inf v)"

fun fmul :: "float64 \<Rightarrow> float64 \<Rightarrow> float64" where
  "fmul (Fin x) (Fin y) = overflow (x * y)"
| "fmul NaN b = NaN"
| "fmul a NaN = NaN"
| "fmul (Fin x) PInf = signed_inf x"
| "fmul (Fin x) NInf = signed_inf (- x)"
| "fmul PInf (Fin y) = signed_inf y"
| "fmul NInf (Fin y) = signed_inf (- y)"
| "fmul PInf PInf = PInf"
| "fmul PInf NInf = NInf"
| "fmul NInf PInf = NInf"
| "fmul NInf NInf = PInf"

fun fdiv :: "float64 \<Rightarrow> float64 \<Rightarrow> float64" where
  "fdiv (Fin x) (Fin y) = (if y = 0 then signed_inf x else overflow (x / y))"
| "fdiv NaN b = NaN"
| "fdiv a NaN = NaN"
| "fdiv (Fin x) PInf = Fin 0"
| "fdiv (Fin x) NInf = Fin 0"
| "fdiv PInf (Fin y) = (if y < 0 then NInf else PInf)"
| "fdiv NInf (Fin y) = (if y < 0 then PInf else NInf)"
| "fdiv PInf PInf = NaN"
| "fdiv PInf NInf = NaN"
| "fdiv NInf PInf = NaN"
| "fdiv NInf NInf = NaN"

fun fless :: "float64 \<Rightarrow> float64 \<Rightarrow> bool" where
  \<comment> \<open>\<^verbatim>\<open>a < b\<close>; every comparison with \<^verbatim>\<open>nan\<close> is false\<close>
  "fless (Fin x) (Fin y) = (x < y)"
| "fless NaN b = False"
| "fless a NaN = False"
| "fless a PInf = (a \<noteq> PInf)"
| "fless NInf b = (b \<noteq> NInf)"
| "fless a b = False"

text \<open>
  The sign of a float64, for stating that a value is not negative: \<^verbatim>\<open>nan\<close> has no
  sign and passes every test.
\<close>

fun not_negative :: "float64 \<Rightarrow> bool" where
  "not_negative (Fin x) = (0 \<le> x)"
| "not_negative NInf = False"
| "not_negative a = True"

fun not_positive :: "float64 \<Rightarrow> bool" where
  "not_positive (Fin x) = (x \<le> 0)"
| "not_positive PInf = False"
| "not_positive a = True"

fun positive :: "float64 \<Rightarrow> bool" where
  "positive (Fin x) = (0 < x)"
| "positive NInf = False"
| "positive a = True"

fun negative :: "float64 \<Rightarrow> bool" where
  "negative (Fin x) = (x < 0)"
| "negative PInf = False"
| "negative a = True"

subsection \<open>complex128 values that may be non-finite\<close>

definition cdiv :: "complex \<Rightarrow> complex \<Rightarrow> complex option" where
  \<comment> \<open>\<^verbatim>\<open>a / b\<close> on finite operands: a zero divisor gives \<^verbatim>\<open>inf\<close>/\<^verbatim>\<open>nan\<close> components\<close>
  "cdiv a b = (if b = 0 then None else Some (a / b))"

definition cadd :: "complex option \<Rightarrow> complex option \<Rightarrow> complex option" where
  "cadd a b = (case (a, b) of (Some x, Some y) \<Rightarrow> Some (x + y) | _ \<Rightarrow> None)"

definition cscale :: "float64 \<Rightarrow> complex option \<Rightarrow> complex option" where
  \<comment> \<open>\<^verbatim>\<open>c * w\<close> for a float64 \<open>c\<close>: finite only when both operands are\<close>
  "cscale c w = (case (c, w) of (Fin a, Some x) \<Rightarrow> Some (of_real a * x) | _ \<Rightarrow> None)"

definition rscale :: "float64 \<Rightarrow> complex option \<Rightarrow> real option" where
  \<comment> \<open>\<^verbatim>\<open>c * np.real(w)\<close>: finite only when both operands are\<close>
  "rscale c w = (case (c, w) of (Fin a, Some x) \<Rightarrow> Some (a * Re x) | _ \<Rightarrow> None)"

subsection \<open>The data classes\<close>

text \<open>
  \<^verbatim>\<open>Pole.power\<close> is the field \<open>power_ms\<close> (\<open>power\<close> is HOL's exponentiation). The
  field \<^verbatim>\<open>residual\<close> is annotated \<^verbatim>\<open>float\<close> but holds the complex residue.
\<close>

record Pole =
  pos :: complex
  frequency :: float64
  power_ms :: "real option"
  residual :: "complex option"

record SpectralAnalysis =
  frequencies :: "float64 list"
  powers :: "float64 list"
  poles :: "Pole list"
  comps :: "complex option list list"

subsection \<open>The NumPy and Python primitives the function calls\<close>

definition np_mean :: "real list \<Rightarrow> float64" where
  \<comment> \<open>\<^verbatim>\<open>np.mean\<close>: the mean of an empty array is \<^verbatim>\<open>nan\<close> (a warning, no exception)\<close>
  "np_mean xs = (if xs = [] then NaN else Fin (sum_list xs / real (length xs)))"

fun fpow :: "float64 \<Rightarrow> nat \<Rightarrow> float64" where
  "fpow a 0 = Fin 1"
| "fpow a (Suc n) = fmul a (fpow a n)"

definition py_max :: "real list \<Rightarrow> error + real" where
  \<comment> \<open>the builtin \<^verbatim>\<open>max\<close> of one iterable: ValueError on an empty one\<close>
  "py_max xs = (case xs of [] \<Rightarrow> Inl ValueError | x # ys \<Rightarrow> Inr (fold max ys x))"

text \<open>
  The value of \<^verbatim>\<open>min(0.99 / max(np.abs(poles_values)), 1)\<close> is one of its two
  arguments: the \<^verbatim>\<open>numpy.float64\<close> quotient, or the Python \<^verbatim>\<open>int\<close> literal \<^verbatim>\<open>1\<close>.
  The builtin \<^verbatim>\<open>min(a, b)\<close> returns \<open>b\<close> when \<^verbatim>\<open>b < a\<close> and \<open>a\<close> otherwise (so \<open>a\<close>
  on a tie).
\<close>

datatype pynum = PyInt int | NpFloat float64

definition py_min :: "float64 \<Rightarrow> int \<Rightarrow> pynum" where
  "py_min a b = (if fless (Fin (of_int b)) a then PyInt b else NpFloat a)"

fun cumprod_from :: "real \<Rightarrow> real list \<Rightarrow> real list" where
  "cumprod_from acc [] = []"
| "cumprod_from acc (x # xs) = (acc * x) # cumprod_from (acc * x) xs"

definition cumprod :: "real list \<Rightarrow> real list" where
  "cumprod xs = cumprod_from 1 xs"

definition linspace :: "real \<Rightarrow> real \<Rightarrow> nat \<Rightarrow> real list" where
  \<comment> \<open>\<^verbatim>\<open>np.linspace(start, stop, num)\<close> with the default \<^verbatim>\<open>endpoint=True\<close>, \<open>num > 1\<close>:
      step \<open>(stop - start) / (num - 1)\<close>, samples \<open>start + i * step\<close>\<close>
  "linspace start stop num =
     map (\<lambda>i. start + real i * ((stop - start) / real (num - 1))) [0..<num]"

definition polyval :: "real list \<Rightarrow> complex \<Rightarrow> complex" where
  \<comment> \<open>\<^verbatim>\<open>np.polyval\<close>: Horner's rule, highest-degree coefficient first\<close>
  "polyval p x = foldl (\<lambda>y c. y * x + of_real c) 0 p"

definition isclose :: "complex \<Rightarrow> complex \<Rightarrow> bool" where
  \<comment> \<open>\<^verbatim>\<open>np.isclose(a, b)\<close> with the defaults \<^verbatim>\<open>rtol=1e-05\<close>, \<^verbatim>\<open>atol=1e-08\<close>\<close>
  "isclose a b = (cmod (a - b) \<le> 1 / 100000000 + 1 / 100000 * cmod b)"

definition angle :: "complex \<Rightarrow> real" where
  \<comment> \<open>\<^verbatim>\<open>np.angle\<close>: the argument in \<open>(-pi, pi]\<close>, 0 at 0\<close>
  "angle x = Arg x"

subsection \<open>The steps of \<^verbatim>\<open>_compute_psd\<close>\<close>

definition ar_coeffs :: "bool \<Rightarrow> real list \<Rightarrow> real list" where
  \<comment> \<open>line 55: \<^verbatim>\<open>theta[1:] if hasTheta0 else theta[:]\<close>\<close>
  "ar_coeffs hasTheta0 theta = (if hasTheta0 then drop 1 theta else theta)"

definition variance :: "real list \<Rightarrow> real \<Rightarrow> float64" where
  \<comment> \<open>lines 56-58: \<^verbatim>\<open>var = 1e6 * (mean_interval ** 3 / k)\<close>\<close>
  "variance wn k = fmul (Fin 1000000) (fdiv (fpow (np_mean wn) 3) (Fin k))"

definition sampling_rate :: "real list \<Rightarrow> float64" where
  \<comment> \<open>line 59: \<^verbatim>\<open>fsamp = 1 / mean_interval\<close>\<close>
  "sampling_rate wn = fdiv (Fin 1) (np_mean wn)"

definition ar_poly :: "real list \<Rightarrow> real list" where
  \<comment> \<open>lines 60, 79: \<^verbatim>\<open>np.r_[1, -thetap]\<close>\<close>
  "ar_poly thetap = 1 # map uminus thetap"

definition sorted_poles :: "complex list \<Rightarrow> complex list" where
  \<comment> \<open>line 64: \<^verbatim>\<open>sorted(poles_values, key=lambda x: abs(np.angle(x)))\<close>, a stable sort
      that returns a Python list\<close>
  "sorted_poles rs = sort_key (\<lambda>x. \<bar>angle x\<bar>) rs"

definition decay :: "complex list \<Rightarrow> error + pynum" where
  \<comment> \<open>line 68: \<^verbatim>\<open>min(0.99 / max(np.abs(poles_values)), 1)\<close>\<close>
  "decay pv = (case py_max (map cmod pv) of
       Inl e \<Rightarrow> Inl e
     | Inr m \<Rightarrow> Inr (py_min (fdiv (Fin (99 / 100)) (Fin m)) 1))"

text \<open>
  Line 69, \<^verbatim>\<open>poles_values = mod_scale * poles_values\<close>. The right operand is the
  Python list that \<^verbatim>\<open>sorted\<close> returned. An \<^verbatim>\<open>int\<close> times a list is the list repeated
  that many times (a new list of the same element objects). A \<^verbatim>\<open>numpy.float64\<close> times
  a list is not an elementwise product: the scalar's multiplication defers to the
  list's sequence repetition, which accepts integers only, and Python raises
  \<^verbatim>\<open>TypeError: can't multiply sequence by non-int of type 'numpy.float64'\<close>.
\<close>

definition repeat_list :: "int \<Rightarrow> 'a list \<Rightarrow> 'a list" where
  \<comment> \<open>\<^verbatim>\<open>n * xs\<close> for a Python \<^verbatim>\<open>int\<close> and a list (empty for \<open>n \<le> 0\<close>)\<close>
  "repeat_list n xs = concat (replicate (nat n) xs)"

definition scale_theta :: "int \<Rightarrow> real list \<Rightarrow> real list" where
  \<comment> \<open>line 70: \<^verbatim>\<open>thetap * np.cumprod(np.ones(thetap.shape) * mod_scale)\<close>, reached with
      an integer \<^verbatim>\<open>mod_scale\<close> only\<close>
  "scale_theta n thetap =
     map2 (*) thetap (cumprod (map (\<lambda>one. one * of_int n) (replicate (length thetap) 1)))"

definition grid :: "real list" where
  \<comment> \<open>line 72: \<^verbatim>\<open>fs = np.linspace(-0.5, 0.5, 2048)\<close>\<close>
  "grid = linspace (- (1 / 2)) (1 / 2) 2048"

definition unit_delay :: "real \<Rightarrow> complex" where
  \<comment> \<open>line 75: \<^verbatim>\<open>z = np.exp(2j * np.pi * fs)\<close>, one entry\<close>
  "unit_delay f = exp (2 * \<i> * of_real pi * of_real f)"

definition power_at :: "float64 \<Rightarrow> float64 \<Rightarrow> real list \<Rightarrow> complex \<Rightarrow> float64" where
  \<comment> \<open>line 79: \<^verbatim>\<open>(var / fsamp) / abs(np.polyval(np.r_[1, -thetap], np.conj(z))) ** 2\<close>\<close>
  "power_at var fsamp thetap z =
     fdiv (fdiv var fsamp) (fpow (Fin (cmod (polyval (ar_poly thetap) (cnj z)))) 2)"

text \<open>
  Lines 81-89, the residues. \<^verbatim>\<open>[val for val in poles_values if val is not p]\<close>
  filters by object identity. \<^verbatim>\<open>poles_values\<close> is here the list built by \<^verbatim>\<open>sorted\<close>
  (repeated once by line 69): its elements are pairwise distinct objects, one per
  position, whatever their values. So \<^verbatim>\<open>val is not p\<close> removes exactly the position
  of \<open>p\<close>, and an equal value at another position stays.
\<close>

definition others :: "complex list \<Rightarrow> nat \<Rightarrow> complex list" where
  "others pv i = map snd (filter (\<lambda>(j, val). j \<noteq> i) (enumerate 0 pv))"

definition residue :: "complex list \<Rightarrow> nat \<Rightarrow> complex option" where
  "residue pv i =
     (let p = pv ! i in
      if p = 0 then None \<comment> \<open>\<^verbatim>\<open>1 / p\<close> is non-finite, and so is the quotient\<close>
      else cdiv 1 (p * prod_list (map (\<lambda>val. p - val) (others pv i))
                     * prod_list (map (\<lambda>val. 1 / p - cnj val) pv)))"

definition pole_frequency :: "float64 \<Rightarrow> complex \<Rightarrow> float64" where
  \<comment> \<open>line 91: \<^verbatim>\<open>np.angle(p) / (2 * np.pi) * fsamp\<close>\<close>
  "pole_frequency fsamp p = fmul (Fin (angle p / (2 * pi))) fsamp"

definition pole_comp ::
  "float64 \<Rightarrow> float64 \<Rightarrow> complex list \<Rightarrow> nat \<Rightarrow> complex \<Rightarrow> complex option" where
  \<comment> \<open>lines 95-99 at one grid point \<open>z\<close>:
      \<^verbatim>\<open>pp = res[i] * p[i] / (z - p[i])\<close>,
      \<^verbatim>\<open>refpp = -conj(res[i]) * ref[i] / (z - ref[i])\<close> with \<^verbatim>\<open>ref = 1 / conj(p)\<close>,
      \<^verbatim>\<open>var / fsamp * (pp + refpp)\<close>\<close>
  "pole_comp var fsamp pv i z =
     (let p = pv ! i;
          pp = (case residue pv i of None \<Rightarrow> None | Some r \<Rightarrow> cdiv (r * p) (z - p));
          refpp = (case (residue pv i, cdiv 1 (cnj p)) of
                     (Some r, Some rf) \<Rightarrow> cdiv (- cnj r * rf) (z - rf)
                   | _ \<Rightarrow> None)
      in cscale (fdiv var fsamp) (cadd pp refpp))"

definition aggregate_step ::
  "complex list \<Rightarrow> complex option list list \<Rightarrow> nat \<Rightarrow>
     complex option list list \<Rightarrow> complex option list list" where
  \<comment> \<open>lines 106-109, the body of the loop at index \<open>i\<close>\<close>
  "aggregate_step pv pcs i agg =
     (if isclose (pv ! i) (cnj (pv ! (i - 1)))
      then butlast agg @ [map2 cadd (last agg) (pcs ! i)]
      else agg @ [pcs ! i])"

definition aggregate_comps ::
  "complex list \<Rightarrow> complex option list list \<Rightarrow> error + complex option list list" where
  \<comment> \<open>lines 101-109; \<^verbatim>\<open>poles_comps[0]\<close> raises IndexError on an empty list\<close>
  "aggregate_comps pv pcs =
     (if pcs = [] then Inl IndexError
      else Inr (fold (aggregate_step pv pcs) [1..<length pv] [pcs ! 0]))"

definition analysis ::
  "bool \<Rightarrow> float64 \<Rightarrow> float64 \<Rightarrow> real list \<Rightarrow> complex list \<Rightarrow> error + SpectralAnalysis" where
  \<comment> \<open>lines 72-123, after the stabilisation\<close>
  "analysis aggregate var fsamp thetap pv =
     (let zs = map unit_delay grid;
          poles_comps = map (\<lambda>i. map (pole_comp var fsamp pv i) zs) [0..<length pv]
      in case aggregate_comps pv poles_comps of
           Inl e \<Rightarrow> Inl e
         | Inr poles_comps_agg \<Rightarrow>
             Inr \<lparr> frequencies = map (\<lambda>f. fmul (Fin f) fsamp) grid,
                   powers = map (power_at var fsamp thetap) zs,
                   poles = map (\<lambda>i. \<lparr> pos = pv ! i,
                                        frequency = pole_frequency fsamp (pv ! i),
                                        power_ms = rscale var (residue pv i),
                                        residual = residue pv i \<rparr>) [0..<length pv],
                   comps = (if aggregate then poles_comps_agg else poles_comps) \<rparr>)"

text \<open>
  \<^verbatim>\<open>np.roots\<close> is NumPy's eigenvalue-based root finder; it is the parameter \<open>roots\<close>.
  \<open>aggregate\<close> is the analyzer's field, \<open>hasTheta0\<close> the model's.
\<close>

definition compute_psd ::
  "(real list \<Rightarrow> complex list) \<Rightarrow> bool \<Rightarrow> bool \<Rightarrow> real list \<Rightarrow> real list \<Rightarrow> real
     \<Rightarrow> error + SpectralAnalysis" where
  "compute_psd roots aggregate hasTheta0 theta wn k =
     (let thetap = ar_coeffs hasTheta0 theta;
          var = variance wn k;
          fsamp = sampling_rate wn;
          poles_values = sorted_poles (roots (ar_poly thetap))
      in case decay poles_values of
           Inl e \<Rightarrow> Inl e
         | Inr mod_scale \<Rightarrow>
            (case mod_scale of
               NpFloat s \<Rightarrow> Inl TypeError \<comment> \<open>line 69, float64 times list\<close>
             | PyInt n \<Rightarrow>
                 analysis aggregate var fsamp (scale_theta n thetap) (repeat_list n poles_values)))"

section \<open>Properties\<close>

subsection \<open>float64 arithmetic\<close>

lemma float_max_large: "10 ^ 300 < float_max"
  by (simp add: float_max_def)

lemma overflow_small: "\<bar>v\<bar> \<le> 10 ^ 300 \<Longrightarrow> overflow v = Fin v"
  using float_max_large by (simp add: overflow_def)

lemma overflow_cases:
  "overflow v = Fin v \<or> (overflow v = PInf \<and> float_max \<le> v) \<or> (overflow v = NInf \<and> v \<le> - float_max)"
  using float_max_large by (auto simp: overflow_def signed_inf_def)

lemma float_max_pos: "0 < float_max"
  using float_max_large by (simp add: order_less_trans[of 0 "10 ^ 300"])

lemma overflow_sign:
  "0 \<le> v \<Longrightarrow> not_negative (overflow v)"
  "v \<le> 0 \<Longrightarrow> not_positive (overflow v)"
  "0 < v \<Longrightarrow> positive (overflow v)"
  "v < 0 \<Longrightarrow> negative (overflow v)"
  using float_max_pos by (auto simp: overflow_def signed_inf_def)

lemma signed_inf_sign:
  "0 \<le> v \<Longrightarrow> not_negative (signed_inf v)"
  "v \<le> 0 \<Longrightarrow> not_positive (signed_inf v)"
  by (auto simp: signed_inf_def)

lemma fmul_sign:
  "not_negative a \<Longrightarrow> not_negative b \<Longrightarrow> not_negative (fmul a b)"
  "not_positive a \<Longrightarrow> not_positive b \<Longrightarrow> not_negative (fmul a b)"
  "not_positive a \<Longrightarrow> not_negative b \<Longrightarrow> not_positive (fmul a b)"
  "not_negative a \<Longrightarrow> not_positive b \<Longrightarrow> not_positive (fmul a b)"
  by (cases a; cases b;
      simp add: overflow_sign signed_inf_sign mult_nonneg_nonneg mult_nonpos_nonpos
        mult_nonpos_nonneg mult_nonneg_nonpos)+

lemma fdiv_sign:
  "not_negative a \<Longrightarrow> positive b \<Longrightarrow> not_negative (fdiv a b)"
  "not_positive a \<Longrightarrow> negative b \<Longrightarrow> not_negative (fdiv a b)"
  "not_positive a \<Longrightarrow> positive b \<Longrightarrow> not_positive (fdiv a b)"
  "not_negative a \<Longrightarrow> not_negative b \<Longrightarrow> not_negative (fdiv a b)"
  by (cases a; cases b;
      simp add: overflow_sign signed_inf_sign divide_nonneg_pos divide_nonpos_neg
        divide_nonpos_pos divide_nonneg_nonneg)+

lemma positive_not_negative: "positive a \<Longrightarrow> not_negative a"
  by (cases a) simp_all

subsection \<open>Outcome of a call\<close>

lemma fold_max_Max: "fold max ys (x::real) = Max (set (x # ys))"
  by (metis Max.set_eq_fold)

lemma decay_Nil: "decay [] = Inl ValueError"
  by (simp add: decay_def py_max_def)

lemma py_max_Cons: "xs \<noteq> [] \<Longrightarrow> py_max xs = Inr (Max (set xs))"
  by (cases xs) (simp_all add: py_max_def fold_max_Max del: set_simps)

lemma py_min_ratio:
  assumes "0 \<le> m"
  shows "py_min (fdiv (Fin (99 / 100)) (Fin m)) 1 =
           (if m < 99 / 100 then PyInt 1 else NpFloat (Fin (99 / 100 / m)))"
proof (cases "m = 0")
  case True
  then show ?thesis by (simp add: py_min_def signed_inf_def)
next
  case False
  with assms have m: "0 < m" by simp
  have big: "1 < float_max" using float_max_large by (simp add: order_less_trans[of 1 "10 ^ 300"])
  show ?thesis
  proof (cases "m < 99 / 100")
    case True
    then have v: "1 < 99 / 100 / m" using m by (simp add: field_simps)
    from overflow_cases[of "99 / 100 / m"] v big
    have "fless (Fin 1) (overflow (99 / 100 / m))"
      by auto
    then show ?thesis using True False by (simp add: py_min_def)
  next
    case nl: False
    then have v: "99 / 100 / m \<le> 1" "0 < 99 / 100 / m" using m by (simp_all add: field_simps)
    then have "\<bar>99 / 100 / m\<bar> < float_max" using big by linarith
    then have "overflow (99 / 100 / m) = Fin (99 / 100 / m)"
      by (simp only: overflow_def if_True)
    then show ?thesis using nl False v by (simp add: py_min_def)
  qed
qed

lemma decay_Cons:
  assumes "pv \<noteq> []"
  shows "decay pv = Inr (if Max (set (map cmod pv)) < 99 / 100 then PyInt 1
                         else NpFloat (Fin (99 / 100 / Max (set (map cmod pv)))))"
proof -
  have "0 \<le> Max (set (map cmod pv))"
    using assms by (cases pv) (auto simp: Max_ge_iff intro: exI)
  then have r: "py_min (fdiv (Fin (99 / 100)) (Fin (Max (set (map cmod pv))))) 1 =
      (if Max (set (map cmod pv)) < 99 / 100 then PyInt 1
       else NpFloat (Fin (99 / 100 / Max (set (map cmod pv)))))"
    by (rule py_min_ratio)
  have m: "py_max (map cmod pv) = Inr (Max (set (map cmod pv)))"
    using assms by (intro py_max_Cons) simp
  show ?thesis
    by (simp only: decay_def m sum.case r)
qed

lemma repeat_list_1: "repeat_list 1 xs = xs"
  by (simp add: repeat_list_def)

lemma cumprod_from_replicate:
  "cumprod_from acc (replicate m c) = map (\<lambda>i. acc * c ^ (Suc i)) [0..<m]"
proof (induction m arbitrary: acc)
  case 0 show ?case by simp
next
  case (Suc m)
  have "map (\<lambda>i. acc * c ^ Suc i) [0..<Suc m] = (acc * c) # map (\<lambda>i. acc * c * c ^ Suc i) [0..<m]"
    by (simp add: upt_conv_Cons map_Suc_upt[symmetric] mult.assoc del: upt_Suc)
  then show ?case using Suc.IH[of "acc * c"] by (simp add: replicate_Suc del: upt_Suc)
qed

lemma scale_theta_nth:
  "i < length thetap \<Longrightarrow> scale_theta n thetap ! i = thetap ! i * (of_int n) ^ (Suc i)"
  by (simp add: scale_theta_def cumprod_def map_replicate cumprod_from_replicate)

lemma length_scale_theta: "length (scale_theta n thetap) = length thetap"
  by (simp add: scale_theta_def cumprod_def map_replicate cumprod_from_replicate)

lemma scale_theta_1: "scale_theta 1 thetap = thetap"
  by (rule nth_equalityI) (simp_all add: length_scale_theta scale_theta_nth)

lemma sorted_poles_Nil_iff: "sorted_poles rs = [] \<longleftrightarrow> rs = []"
  by (metis sorted_poles_def length_sort length_0_conv)

lemma set_sorted_poles: "set (sorted_poles rs) = set rs"
  by (simp add: sorted_poles_def)

lemma length_sorted_poles: "length (sorted_poles rs) = length rs"
  by (simp add: sorted_poles_def)

lemma compute_psd_no_poles:
  assumes "roots (ar_poly (ar_coeffs hasTheta0 theta)) = []"
  shows "compute_psd roots aggregate hasTheta0 theta wn k = Inl ValueError"
  using assms by (simp add: compute_psd_def sorted_poles_def decay_Nil)

lemma compute_psd_unstable:
  assumes "roots (ar_poly (ar_coeffs hasTheta0 theta)) \<noteq> []"
    and "\<not> Max (set (map cmod (roots (ar_poly (ar_coeffs hasTheta0 theta))))) < 99 / 100"
  shows "compute_psd roots aggregate hasTheta0 theta wn k = Inl TypeError"
proof -
  let ?pv = "sorted_poles (roots (ar_poly (ar_coeffs hasTheta0 theta)))"
  have ne: "?pv \<noteq> []" using assms(1) by (simp add: sorted_poles_Nil_iff)
  have "set (map cmod ?pv) = set (map cmod (roots (ar_poly (ar_coeffs hasTheta0 theta))))"
    by (simp add: set_sorted_poles)
  with assms(2) have "\<not> Max (set (map cmod ?pv)) < 99 / 100" by simp
  with decay_Cons[OF ne] obtain a where "decay ?pv = Inr (NpFloat a)" by simp
  then show ?thesis by (simp add: compute_psd_def Let_def)
qed

lemma compute_psd_stable:
  assumes "roots (ar_poly (ar_coeffs hasTheta0 theta)) \<noteq> []"
    and "Max (set (map cmod (roots (ar_poly (ar_coeffs hasTheta0 theta))))) < 99 / 100"
  shows "compute_psd roots aggregate hasTheta0 theta wn k =
           analysis aggregate (variance wn k) (sampling_rate wn) (ar_coeffs hasTheta0 theta)
             (sorted_poles (roots (ar_poly (ar_coeffs hasTheta0 theta))))"
proof -
  let ?pv = "sorted_poles (roots (ar_poly (ar_coeffs hasTheta0 theta)))"
  have ne: "?pv \<noteq> []" using assms(1) by (simp add: sorted_poles_Nil_iff)
  have "set (map cmod ?pv) = set (map cmod (roots (ar_poly (ar_coeffs hasTheta0 theta))))"
    by (simp add: set_sorted_poles)
  with assms(2) have "Max (set (map cmod ?pv)) < 99 / 100" by simp
  with decay_Cons[OF ne] have "decay ?pv = Inr (PyInt 1)" by simp
  then show ?thesis by (simp add: compute_psd_def Let_def repeat_list_1 scale_theta_1)
qed

lemma analysis_Cons:
  assumes "pv \<noteq> []"
  shows "analysis aggregate var fsamp thetap pv =
     Inr \<lparr> frequencies = map (\<lambda>f. fmul (Fin f) fsamp) grid,
           powers = map (power_at var fsamp thetap) (map unit_delay grid),
           poles = map (\<lambda>i. \<lparr> pos = pv ! i,
                                frequency = pole_frequency fsamp (pv ! i),
                                power_ms = rscale var (residue pv i),
                                residual = residue pv i \<rparr>) [0..<length pv],
           comps = (let pcs = map (\<lambda>i. map (pole_comp var fsamp pv i) (map unit_delay grid)) [0..<length pv]
                    in if aggregate then fold (aggregate_step pv pcs) [1..<length pv] [pcs ! 0] else pcs) \<rparr>"
  using assms by (simp add: analysis_def aggregate_comps_def Let_def)

lemma compute_psd_cases:
  fixes roots hasTheta0 theta
  defines "rs \<equiv> roots (ar_poly (ar_coeffs hasTheta0 theta))"
  shows "compute_psd roots aggregate hasTheta0 theta wn k =
    (if rs = [] then Inl ValueError
     else if Max (set (map cmod rs)) < 99 / 100
       then analysis aggregate (variance wn k) (sampling_rate wn) (ar_coeffs hasTheta0 theta) (sorted_poles rs)
       else Inl TypeError)"
  unfolding rs_def
  using compute_psd_no_poles compute_psd_unstable compute_psd_stable by simp

lemma compute_psd_InrD:
  assumes "compute_psd roots aggregate hasTheta0 theta wn k = Inr r"
  shows "roots (ar_poly (ar_coeffs hasTheta0 theta)) \<noteq> []"
    and "Max (set (map cmod (roots (ar_poly (ar_coeffs hasTheta0 theta))))) < 99 / 100"
    and "analysis aggregate (variance wn k) (sampling_rate wn) (ar_coeffs hasTheta0 theta)
           (sorted_poles (roots (ar_poly (ar_coeffs hasTheta0 theta)))) = Inr r"
  using assms unfolding compute_psd_cases by (simp_all split: if_splits)

lemma psd_fields:
  assumes "compute_psd roots aggregate hasTheta0 theta wn k = Inr r"
  defines "pv \<equiv> sorted_poles (roots (ar_poly (ar_coeffs hasTheta0 theta)))"
  shows "frequencies r = map (\<lambda>f. fmul (Fin f) (sampling_rate wn)) grid"
    and "powers r = map (power_at (variance wn k) (sampling_rate wn) (ar_coeffs hasTheta0 theta))
                      (map unit_delay grid)"
    and "poles r = map (\<lambda>i. \<lparr> pos = pv ! i,
                                frequency = pole_frequency (sampling_rate wn) (pv ! i),
                                power_ms = rscale (variance wn k) (residue pv i),
                                residual = residue pv i \<rparr>) [0..<length pv]"
    and "comps r =
          (let pcs = map (\<lambda>i. map (pole_comp (variance wn k) (sampling_rate wn) pv i)
                                (map unit_delay grid)) [0..<length pv]
           in if aggregate then fold (aggregate_step pv pcs) [1..<length pv] [pcs ! 0] else pcs)"
proof -
  have ne: "pv \<noteq> []"
    using compute_psd_InrD(1)[OF assms(1)] by (simp add: pv_def sorted_poles_Nil_iff)
  have "analysis aggregate (variance wn k) (sampling_rate wn) (ar_coeffs hasTheta0 theta) pv = Inr r"
    using compute_psd_InrD(3)[OF assms(1)] by (simp add: pv_def)
  then have r: "r = \<lparr> frequencies = map (\<lambda>f. fmul (Fin f) (sampling_rate wn)) grid,
           powers = map (power_at (variance wn k) (sampling_rate wn) (ar_coeffs hasTheta0 theta)) (map unit_delay grid),
           poles = map (\<lambda>i. \<lparr> pos = pv ! i,
                                frequency = pole_frequency (sampling_rate wn) (pv ! i),
                                power_ms = rscale (variance wn k) (residue pv i),
                                residual = residue pv i \<rparr>) [0..<length pv],
           comps = (let pcs = map (\<lambda>i. map (pole_comp (variance wn k) (sampling_rate wn) pv i) (map unit_delay grid)) [0..<length pv]
                    in if aggregate then fold (aggregate_step pv pcs) [1..<length pv] [pcs ! 0] else pcs) \<rparr>"
    unfolding analysis_Cons[OF ne] by simp
  show "frequencies r = map (\<lambda>f. fmul (Fin f) (sampling_rate wn)) grid"
    by (subst r) simp
  show "powers r = map (power_at (variance wn k) (sampling_rate wn) (ar_coeffs hasTheta0 theta))
                      (map unit_delay grid)"
    by (subst r) simp
  show "poles r = map (\<lambda>i. \<lparr> pos = pv ! i,
                                frequency = pole_frequency (sampling_rate wn) (pv ! i),
                                power_ms = rscale (variance wn k) (residue pv i),
                                residual = residue pv i \<rparr>) [0..<length pv]"
    by (subst r) simp
  show "comps r =
          (let pcs = map (\<lambda>i. map (pole_comp (variance wn k) (sampling_rate wn) pv i)
                                (map unit_delay grid)) [0..<length pv]
           in if aggregate then fold (aggregate_step pv pcs) [1..<length pv] [pcs ! 0] else pcs)"
    by (subst r) simp
qed

lemma length_grid: "length grid = 2048"
  by (simp add: grid_def linspace_def)

lemma grid_nth: "i < 2048 \<Longrightarrow> grid ! i = - (1 / 2) + real i / 2047"
  by (simp add: grid_def linspace_def)

subsection \<open>The degenerate model\<close>

text \<open>
  C5 (as amended). When no AR coefficient is left after the intercept is removed, the
  polynomial is the constant 1 and \<^verbatim>\<open>np.roots\<close> returns no root; \<^verbatim>\<open>max\<close> of the empty
  magnitude array then raises ValueError at line 68, and nothing is returned.
\<close>

theorem empty_coefficients_raise_ValueError:
  assumes "ar_coeffs hasTheta0 theta = []" and "roots [1] = []"
  shows "compute_psd roots aggregate hasTheta0 theta wn k = Inl ValueError"
  using assms by (intro compute_psd_no_poles) (simp add: ar_poly_def)

text \<open>The theorem at \<^verbatim>\<open>theta = [10.]\<close> with an intercept.\<close>

theorem empty_coefficients_raise_ValueError_witness:
  "compute_psd (\<lambda>p. []) True True [10] [1] 1 = Inl ValueError"
  using empty_coefficients_raise_ValueError[of True "[10]" "\<lambda>p. []" True "[1]" 1]
  by (simp add: ar_coeffs_def)

text \<open>
  C5 as stated fails: the error of that input is ValueError, not DegenerateModelError.
\<close>

theorem empty_coefficients_not_DegenerateModelError:
  "ar_coeffs True [10] = [] \<and>
   compute_psd (\<lambda>p. []) True True [10] [1] 1 = Inl ValueError \<and>
   compute_psd (\<lambda>p. []) True True [10] [1] 1 \<noteq> Inl DegenerateModelError"
  by (simp add: compute_psd_no_poles ar_coeffs_def)

subsection \<open>Returning calls and the running example\<close>

lemma compute_psd_returns:
  assumes "roots (ar_poly (ar_coeffs hasTheta0 theta)) \<noteq> []"
    and "Max (set (map cmod (roots (ar_poly (ar_coeffs hasTheta0 theta))))) < 99 / 100"
  shows "compute_psd roots aggregate hasTheta0 theta wn k =
           Inr (projr (compute_psd roots aggregate hasTheta0 theta wn k))"
proof -
  have "sorted_poles (roots (ar_poly (ar_coeffs hasTheta0 theta))) \<noteq> []"
    using assms(1) by (simp add: sorted_poles_Nil_iff)
  then show ?thesis
    unfolding compute_psd_stable[of roots hasTheta0 theta, OF assms]
    by (simp add: analysis_Cons)
qed

text \<open>The running example: \<^verbatim>\<open>theta = [0.5]\<close> without intercept, whose only root is 0.5.\<close>

lemma example_returns:
  "compute_psd (\<lambda>p. [1 / 2]) aggregate False [1 / 2] wn k =
     Inr (projr (compute_psd (\<lambda>p. [1 / 2]) aggregate False [1 / 2] wn k))"
  by (rule compute_psd_returns[where roots="\<lambda>p. [1 / 2]"]) simp_all

lemma sampling_rate_1: "sampling_rate [1] = Fin 1"
  by (simp add: sampling_rate_def np_mean_def overflow_small)

subsection \<open>The frequency grid\<close>

text \<open>
  C8 (as amended). The returned frequency array has exactly 2048 entries, entry \<open>i\<close>
  being \<open>(-0.5 + i / 2047) * fsamp\<close>: linearly spaced from \<open>-0.5 * fsamp\<close> to
  \<open>+0.5 * fsamp\<close>, both ends included (\<^verbatim>\<open>np.linspace\<close> with its default endpoint).
\<close>

theorem frequency_grid_inclusive:
  assumes "compute_psd roots aggregate hasTheta0 theta wn k = Inr r"
  shows "length (frequencies r) = 2048 \<and>
         (\<forall>i<2048. frequencies r ! i = fmul (Fin (- (1 / 2) + real i / 2047)) (sampling_rate wn)) \<and>
         frequencies r ! 0 = fmul (Fin (- (1 / 2))) (sampling_rate wn) \<and>
         frequencies r ! 2047 = fmul (Fin (1 / 2)) (sampling_rate wn)"
  by (simp add: psd_fields(1)[OF assms] length_grid grid_nth)

text \<open>The theorem at the running example with \<^verbatim>\<open>wn = [1.]\<close>, \<^verbatim>\<open>k = 1\<close>.\<close>

theorem frequency_grid_inclusive_witness:
  "length (frequencies (projr (compute_psd (\<lambda>p. [1 / 2]) True False [1 / 2] [1] 1))) = 2048 \<and>
   frequencies (projr (compute_psd (\<lambda>p. [1 / 2]) True False [1 / 2] [1] 1)) ! 0 = Fin (- (1 / 2))"
  using frequency_grid_inclusive[OF example_returns, of True "[1]" 1]
  by (simp add: sampling_rate_1 overflow_small)

text \<open>
  C8 as stated fails: the last entry of the grid is the right endpoint \<open>+0.5 * fsamp\<close>
  (here \<open>fsamp = 1\<close>).
\<close>

theorem right_endpoint_in_grid:
  "compute_psd (\<lambda>p. [1 / 2]) True False [1 / 2] [1] 1 =
     Inr (projr (compute_psd (\<lambda>p. [1 / 2]) True False [1 / 2] [1] 1)) \<and>
   sampling_rate [1] = Fin 1 \<and>
   frequencies (projr (compute_psd (\<lambda>p. [1 / 2]) True False [1 / 2] [1] 1)) ! 2047 = Fin (1 / 2)"
  using psd_fields(1)[OF example_returns, of True "[1]" 1] example_returns[of True "[1]" 1]
  by (simp add: sampling_rate_1 length_grid grid_nth overflow_small)

subsection \<open>The sample count\<close>

lemma fdiv_by_zero: "fdiv a (Fin 0) \<in> {PInf, NInf, NaN}"
  by (cases a) (simp_all add: signed_inf_def)

lemma fmul_nonfinite: "b \<in> {PInf, NInf, NaN} \<Longrightarrow> fmul (Fin x) b \<in> {PInf, NInf, NaN}"
  by (auto simp: signed_inf_def split: if_splits)

lemma variance_zero_count: "variance wn 0 \<in> {PInf, NInf, NaN}"
  unfolding variance_def by (rule fmul_nonfinite) (rule fdiv_by_zero)

lemma fdiv_nonfinite_left:
  assumes "a \<in> {PInf, NInf, NaN}"
  shows "fdiv a b \<in> {PInf, NInf, NaN}"
  using assms by (cases a; cases b) auto

lemma fdiv_nonfinite:
  assumes "a \<in> {PInf, NInf, NaN}"
  shows "fdiv (fdiv a b) d \<in> {PInf, NInf, NaN}"
  by (intro fdiv_nonfinite_left assms)

lemma outcome_independent_of_k:
  "(compute_psd roots aggregate hasTheta0 theta wn k = Inl e) =
   (compute_psd roots aggregate hasTheta0 theta wn k' = Inl e)"
  unfolding compute_psd_cases
  by (simp add: analysis_Cons sorted_poles_Nil_iff)

lemma psd_error_cases:
  "compute_psd roots aggregate hasTheta0 theta wn k = Inl e \<Longrightarrow> e = ValueError \<or> e = TypeError"
  unfolding compute_psd_cases
  by (simp add: analysis_Cons sorted_poles_Nil_iff split: if_splits)

text \<open>
  C7 (as amended). A sample count \<open>k \<le> 0\<close> is never reported: the call raises or
  returns exactly as it does for \<open>k = 1\<close> (the only errors come from the poles), and
  no error is InvalidSampleCountError. For \<open>k = 0\<close> the division yields a non-finite
  variance and every entry of the returned power array is \<^verbatim>\<open>inf\<close>, \<^verbatim>\<open>-inf\<close> or
  \<^verbatim>\<open>nan\<close>.
\<close>

theorem nonpositive_sample_count_not_reported:
  assumes "k \<le> 0"
  shows "compute_psd roots aggregate hasTheta0 theta wn k \<noteq> Inl InvalidSampleCountError \<and>
         (\<forall>e. (compute_psd roots aggregate hasTheta0 theta wn k = Inl e) =
              (compute_psd roots aggregate hasTheta0 theta wn 1 = Inl e)) \<and>
         (\<forall>r. k = 0 \<longrightarrow> compute_psd roots aggregate hasTheta0 theta wn k = Inr r \<longrightarrow>
              (\<forall>i<2048. powers r ! i \<in> {PInf, NInf, NaN}))"
proof (intro conjI allI impI)
  show "compute_psd roots aggregate hasTheta0 theta wn k \<noteq> Inl InvalidSampleCountError"
    using psd_error_cases[of roots aggregate hasTheta0 theta wn k InvalidSampleCountError] by auto
next
  fix e
  show "(compute_psd roots aggregate hasTheta0 theta wn k = Inl e) =
        (compute_psd roots aggregate hasTheta0 theta wn 1 = Inl e)"
    by (rule outcome_independent_of_k)
next
  fix r i
  assume k: "k = 0" and r: "compute_psd roots aggregate hasTheta0 theta wn k = Inr r"
    and i: "i < (2048::nat)"
  have "powers r ! i = power_at (variance wn 0) (sampling_rate wn) (ar_coeffs hasTheta0 theta)
                         (unit_delay (grid ! i))"
    using i by (simp add: psd_fields(2)[OF r] length_grid k)
  then show "powers r ! i \<in> {PInf, NInf, NaN}"
    unfolding power_at_def using fdiv_nonfinite[OF variance_zero_count] by simp
qed

text \<open>The theorem at the running example with \<open>k = 0\<close>.\<close>

theorem nonpositive_sample_count_not_reported_witness:
  "compute_psd (\<lambda>p. [1 / 2]) True False [1 / 2] [1] 0 \<noteq> Inl InvalidSampleCountError \<and>
   powers (projr (compute_psd (\<lambda>p. [1 / 2]) True False [1 / 2] [1] 0)) ! 7 \<in> {PInf, NInf, NaN}"
  using nonpositive_sample_count_not_reported[of 0 "\<lambda>p. [1 / 2]" True False "[1 / 2]" "[1]"]
    example_returns[of True "[1]" 0]
  by auto

lemma variance_example_zero: "variance [1] 0 = PInf"
  by (simp add: variance_def np_mean_def signed_inf_def overflow_small numeral_3_eq_3)

lemma first_grid_point: "unit_delay (grid ! 0) = - 1"
proof -
  have "unit_delay (grid ! 0) = cis (- pi)"
    by (simp add: grid_nth unit_delay_def cis_conv_exp algebra_simps)
  also have "\<dots> = - 1" by (metis cis_cnj cis_pi complex_cnj_minus complex_cnj_one)
  finally show ?thesis .
qed

lemma last_grid_point: "unit_delay (grid ! 2047) = - 1"
proof -
  have "unit_delay (grid ! 2047) = cis pi"
    by (simp add: grid_nth unit_delay_def cis_conv_exp algebra_simps)
  then show ?thesis by simp
qed

lemma example_polyval: "cmod (polyval (ar_poly [1 / 2]) (- 1)) = 3 / 2"
proof -
  have "polyval (ar_poly [1 / 2]) (- 1) = - (3 / 2)" by (simp add: polyval_def ar_poly_def)
  then show ?thesis by (simp add: norm_divide)
qed

lemma example_square: "fpow (Fin (3 / 2)) 2 = Fin (9 / 4)"
  by (simp add: numeral_2_eq_2 overflow_small)

text \<open>
  C7 as stated fails: with \<open>k = 0\<close> the call returns a result, whose first power entry
  is \<^verbatim>\<open>+inf\<close>.
\<close>

theorem zero_sample_count_returns_infinite_powers:
  "compute_psd (\<lambda>p. [1 / 2]) True False [1 / 2] [1] 0 =
     Inr (projr (compute_psd (\<lambda>p. [1 / 2]) True False [1 / 2] [1] 0)) \<and>
   compute_psd (\<lambda>p. [1 / 2]) True False [1 / 2] [1] 0 \<noteq> Inl InvalidSampleCountError \<and>
   powers (projr (compute_psd (\<lambda>p. [1 / 2]) True False [1 / 2] [1] 0)) ! 0 = PInf"
proof -
  let ?c = "compute_psd (\<lambda>p. [1 / 2]) True False [1 / 2] [1] 0"
  have r: "?c = Inr (projr ?c)" by (rule example_returns)
  then have "?c \<noteq> Inl InvalidSampleCountError" by (metis Inl_Inr_False)
  moreover have "powers (projr ?c) ! 0 = PInf"
    by (simp add: psd_fields(2)[OF r] length_grid power_at_def variance_example_zero
        sampling_rate_1 first_grid_point ar_coeffs_def example_polyval example_square)
  ultimately show ?thesis using r by blast
qed

subsection \<open>Conjugate aggregation\<close>

lemma length_aggregate_step:
  "agg \<noteq> [] \<Longrightarrow> length (aggregate_step pv pcs i agg) =
     length agg + (if isclose (pv ! i) (cnj (pv ! (i - 1))) then 0 else 1)"
  by (simp add: aggregate_step_def)

lemma aggregate_step_nonempty: "aggregate_step pv pcs i agg \<noteq> []"
  by (simp add: aggregate_step_def)

lemma length_fold_aggregate_step:
  "agg \<noteq> [] \<Longrightarrow> length (fold (aggregate_step pv pcs) js agg) =
     length agg + length (filter (\<lambda>i. \<not> isclose (pv ! i) (cnj (pv ! (i - 1)))) js)"
proof (induction js arbitrary: agg)
  case Nil
  show ?case by simp
next
  case (Cons j js)
  show ?case
    using Cons.IH[OF aggregate_step_nonempty, of pv pcs j agg] Cons.prems
    by (simp add: length_aggregate_step)
qed

lemma psd_pos:
  assumes "compute_psd roots aggregate hasTheta0 theta wn k = Inr r"
  shows "length (poles r) = length (roots (ar_poly (ar_coeffs hasTheta0 theta)))"
    and "map pos (poles r) = sorted_poles (roots (ar_poly (ar_coeffs hasTheta0 theta)))"
proof -
  show "length (poles r) = length (roots (ar_poly (ar_coeffs hasTheta0 theta)))"
    by (simp add: psd_fields(3)[OF assms] length_sorted_poles)
  show "map pos (poles r) = sorted_poles (roots (ar_poly (ar_coeffs hasTheta0 theta)))"
    by (rule nth_equalityI) (simp_all add: psd_fields(3)[OF assms])
qed

lemma psd_pos_nth:
  assumes "compute_psd roots aggregate hasTheta0 theta wn k = Inr r" and "i < length (poles r)"
  shows "pos (poles r ! i) = sorted_poles (roots (ar_poly (ar_coeffs hasTheta0 theta))) ! i"
  using psd_pos(2)[OF assms(1)] assms(2) by (metis nth_map)

lemma contribution_count_aux:
  assumes "compute_psd roots aggregate hasTheta0 theta wn k = Inr r"
  shows "length (comps r) =
           (if aggregate
            then 1 + length (filter (\<lambda>i. \<not> isclose (pos (poles r ! i)) (cnj (pos (poles r ! (i - 1)))))
                               [1..<length (poles r)])
            else length (poles r))"
proof -
  let ?pv = "sorted_poles (roots (ar_poly (ar_coeffs hasTheta0 theta)))"
  have n: "length (poles r) = length ?pv"
    by (simp add: psd_pos(1)[OF assms] length_sorted_poles)
  have f: "filter (\<lambda>i. \<not> isclose (pos (poles r ! i)) (cnj (pos (poles r ! (i - 1))))) [1..<length ?pv]
         = filter (\<lambda>i. \<not> isclose (?pv ! i) (cnj (?pv ! (i - 1)))) [1..<length ?pv]"
  proof (rule filter_cong[OF refl])
    fix i assume "i \<in> set [1..<length ?pv]"
    then have "i < length (poles r)" "i - 1 < length (poles r)" by (auto simp: n)
    then show "(\<not> isclose (pos (poles r ! i)) (cnj (pos (poles r ! (i - 1))))) =
               (\<not> isclose (?pv ! i) (cnj (?pv ! (i - 1))))"
      by (simp only: psd_pos_nth[OF assms])
  qed
  show ?thesis
    unfolding n f
    by (simp add: psd_fields(4)[OF assms] Let_def length_fold_aggregate_step)
qed

lemma length_filter_less_iff:
  "length (filter P xs) < length xs \<longleftrightarrow> (\<exists>x\<in>set xs. \<not> P x)"
  by (metis filter_True length_filter_less order_less_irrefl)

lemma contribution_count_returned:
  assumes "compute_psd roots aggregate hasTheta0 theta wn k = Inr r"
  shows "length (comps r) =
           (if aggregate
            then 1 + length (filter (\<lambda>i. \<not> isclose (pos (poles r ! i)) (cnj (pos (poles r ! (i - 1)))))
                               [1..<length (poles r)])
            else length (poles r)) \<and>
         length (comps r) \<le> length (poles r) \<and>
         (length (comps r) < length (poles r) \<longleftrightarrow>
            aggregate \<and> (\<exists>i\<in>{1..<length (poles r)}.
                           isclose (pos (poles r ! i)) (cnj (pos (poles r ! (i - 1))))))"
proof -
  let ?P = "\<lambda>i. \<not> isclose (pos (poles r ! i)) (cnj (pos (poles r ! (i - 1))))"
  let ?js = "[1..<length (poles r)]"
  have ne: "0 < length (poles r)"
    using compute_psd_InrD(1)[OF assms] by (simp add: psd_pos(1)[OF assms])
  then have len: "length ?js = length (poles r) - 1" by simp
  have le: "length (filter ?P ?js) \<le> length (poles r) - 1"
    using length_filter_le[of ?P ?js] by (simp only: len)
  have lt: "length (filter ?P ?js) < length (poles r) - 1 \<longleftrightarrow>
              (\<exists>i\<in>{1..<length (poles r)}. \<not> ?P i)"
    using length_filter_less_iff[of ?P ?js] by (simp only: len set_upt)
  show ?thesis
    unfolding contribution_count_aux[OF assms]
    using ne le lt by (cases aggregate) auto
qed

lemma angle_pos_real: "0 < x \<Longrightarrow> angle (complex_of_real x) = 0"
  unfolding angle_def by (rule cis_Arg_unique) (simp_all add: sgn_of_real)

text \<open>
  The sort is stable, and a number and its conjugate have the same absolute angle: two
  conjugates that \<^verbatim>\<open>np.roots\<close> returned next to each other are still next to each
  other, in the same order, in the sorted list.
\<close>

lemma insort_key_split:
  "\<exists>a b. ys = a @ b \<and> insort_key f x ys = a @ x # b \<and> (\<forall>z\<in>set a. f z < f x)"
proof (induction ys)
  case Nil
  show ?case by simp
next
  case (Cons y ys)
  show ?case
  proof (cases "f x \<le> f y")
    case True
    then have "y # ys = [] @ (y # ys) \<and> insort_key f x (y # ys) = [] @ x # (y # ys) \<and>
               (\<forall>z\<in>set []. f z < f x)" by simp
    then show ?thesis by blast
  next
    case False
    from Cons.IH obtain a b where ab: "ys = a @ b" "insort_key f x ys = a @ x # b"
      "\<forall>z\<in>set a. f z < f x" by blast
    with False have "y # ys = (y # a) @ b \<and> insort_key f x (y # ys) = (y # a) @ x # b \<and>
               (\<forall>z\<in>set (y # a). f z < f x)" by auto
    then show ?thesis by blast
  qed
qed

lemma insort_key_before_equal:
  assumes "\<forall>z\<in>set a. f z < f x" and "f x \<le> f u"
  shows "insort_key f x (a @ u # b) = a @ x # u # b"
  using assms by (induction a) auto

lemma insort_key_keeps_pair:
  assumes "f u = f v"
  shows "\<exists>a' b'. insort_key f z (a @ u # v # b) = a' @ u # v # b'"
proof (induction a)
  case Nil
  show ?case
  proof (cases "f z \<le> f u")
    case True
    then have "insort_key f z ([] @ u # v # b) = [z] @ u # v # b" by simp
    then show ?thesis by blast
  next
    case False
    then have "insort_key f z ([] @ u # v # b) = [] @ u # v # insort_key f z b"
      using assms by simp
    then show ?thesis by blast
  qed
next
  case (Cons y a)
  show ?case
  proof (cases "f z \<le> f y")
    case True
    then have "insort_key f z ((y # a) @ u # v # b) = (z # y # a) @ u # v # b" by simp
    then show ?thesis by blast
  next
    case False
    from Cons.IH obtain a' b' where "insort_key f z (a @ u # v # b) = a' @ u # v # b'" by blast
    with False have "insort_key f z ((y # a) @ u # v # b) = (y # a') @ u # v # b'" by simp
    then show ?thesis by blast
  qed
qed

lemma sort_key_keeps_pair:
  assumes "f u = f v"
  shows "\<exists>a b. sort_key f (p @ u # v # q) = a @ u # v # b"
proof (induction p)
  case Nil
  obtain a b where ab: "insort_key f v (sort_key f q) = a @ v # b" "\<forall>z\<in>set a. f z < f v"
    using insort_key_split[of "sort_key f q" f v] by blast
  have "insort_key f u (a @ v # b) = a @ u # v # b"
    using ab(2) assms by (intro insort_key_before_equal) simp_all
  then have "sort_key f ([] @ u # v # q) = a @ u # v # b" by (simp add: ab(1))
  then show ?case by blast
next
  case (Cons y p)
  from Cons.IH obtain a b where "sort_key f (p @ u # v # q) = a @ u # v # b" by blast
  then have "sort_key f ((y # p) @ u # v # q) = insort_key f y (a @ u # v # b)" by simp
  then show ?case using insort_key_keeps_pair[of f u v y a b, OF assms] by metis
qed

lemma sort_key_adjacent:
  assumes "Suc j < length xs" and "f (xs ! j) = f (xs ! Suc j)"
  shows "\<exists>i. Suc i < length xs \<and> sort_key f xs ! i = xs ! j \<and> sort_key f xs ! Suc i = xs ! Suc j"
proof -
  have xs: "xs = take j xs @ xs ! j # xs ! Suc j # drop (Suc (Suc j)) xs"
    using assms(1) by (metis Cons_nth_drop_Suc Suc_lessD append_take_drop_id)
  obtain a b where ab: "sort_key f xs = a @ xs ! j # xs ! Suc j # b"
    using sort_key_keeps_pair[of f "xs ! j" "xs ! Suc j" "take j xs" "drop (Suc (Suc j)) xs",
        OF assms(2)] xs by metis
  have "length (sort_key f xs) = length xs" by simp
  then have "Suc (length a) < length xs" unfolding ab by simp
  moreover have "sort_key f xs ! length a = xs ! j" "sort_key f xs ! Suc (length a) = xs ! Suc j"
    unfolding ab by (simp_all add: nth_append)
  ultimately show ?thesis by blast
qed

lemma Arg_cnj_abs: "\<bar>Arg (cnj z)\<bar> = \<bar>Arg z\<bar>"
proof (cases "z = 0 \<or> Arg z = pi")
  case True
  then show ?thesis
  proof
    assume "z = 0" then show ?thesis by simp
  next
    assume p: "Arg z = pi"
    then have "z \<noteq> 0" using Arg_zero pi_neq_zero by metis
    then have "sgn z = - 1" using cis_Arg[of z] p by simp
    then have "Im (sgn z) = 0" by simp
    then have "Im z = 0" using \<open>z \<noteq> 0\<close> by (simp add: Im_sgn)
    then have "cnj z = z" by (simp add: complex_eq_iff)
    then show ?thesis by simp
  qed
next
  case False
  then have z: "z \<noteq> 0" and lt: "Arg z < pi" using Arg_bounded[of z] by auto
  have "sgn (cnj z) = cnj (sgn z)" by (simp add: sgn_eq)
  also have "\<dots> = cnj (cis (Arg z))" by (simp only: cis_Arg[OF z])
  also have "\<dots> = cis (- Arg z)" by (rule cis_cnj)
  finally have "sgn (cnj z) = cis (- Arg z)" .
  moreover have "- pi < - Arg z" "- Arg z \<le> pi" using lt Arg_bounded[of z] by auto
  ultimately have "Arg (cnj z) = - Arg z" by (rule cis_Arg_unique)
  then show ?thesis by simp
qed

lemma sorted_poles_conjugates_adjacent:
  assumes "Suc j < length rs" and "rs ! Suc j = cnj (rs ! j)"
  shows "\<exists>i. Suc i < length rs \<and> sorted_poles rs ! Suc i = cnj (sorted_poles rs ! i)"
proof -
  have "\<bar>angle (rs ! j)\<bar> = \<bar>angle (rs ! Suc j)\<bar>"
    by (simp add: assms(2) angle_def Arg_cnj_abs)
  from sort_key_adjacent[OF assms(1), of "\<lambda>x. \<bar>angle x\<bar>", OF this]
  show ?thesis unfolding sorted_poles_def using assms(2) by auto
qed

lemma isclose_refl: "isclose a a"
  by (simp add: isclose_def)

text \<open>
  C4 (as amended). On every input with at least one root and all roots of magnitude
  strictly below 0.99 the call returns one pole per root. Without aggregation there is
  one contribution array per pole. With aggregation there are never more arrays than
  poles, and strictly fewer when a conjugate pair is present (\<^verbatim>\<open>np.roots\<close> returns the
  two conjugates next to each other). Otherwise the counts need not be equal: the count
  is one plus the number of indices \<open>i \<ge> 1\<close> whose pole is not \<^verbatim>\<open>np.isclose\<close> to the
  conjugate of the pole before it, so it equals the number of poles exactly when no pole
  is \<^verbatim>\<open>np.isclose\<close> to the conjugate of its predecessor in the sorted list.
\<close>

theorem aggregated_contribution_count:
  assumes "roots (ar_poly (ar_coeffs hasTheta0 theta)) \<noteq> []"
    and "\<forall>p\<in>set (roots (ar_poly (ar_coeffs hasTheta0 theta))). cmod p < 99 / 100"
  shows "\<exists>r. compute_psd roots aggregate hasTheta0 theta wn k = Inr r \<and>
           length (poles r) = length (roots (ar_poly (ar_coeffs hasTheta0 theta))) \<and>
           (\<not> aggregate \<longrightarrow> length (comps r) = length (poles r)) \<and>
           length (comps r) \<le> length (poles r) \<and>
           (aggregate \<and>
              (\<exists>j. Suc j < length (roots (ar_poly (ar_coeffs hasTheta0 theta))) \<and>
                   roots (ar_poly (ar_coeffs hasTheta0 theta)) ! Suc j =
                     cnj (roots (ar_poly (ar_coeffs hasTheta0 theta)) ! j))
              \<longrightarrow> length (comps r) < length (poles r)) \<and>
           (aggregate \<longrightarrow> length (comps r) =
              1 + length (filter (\<lambda>i. \<not> isclose (pos (poles r ! i)) (cnj (pos (poles r ! (i - 1)))))
                            [1..<length (poles r)])) \<and>
           (length (comps r) = length (poles r) \<longleftrightarrow>
              \<not> aggregate \<or> (\<forall>i\<in>{1..<length (poles r)}.
                               \<not> isclose (pos (poles r ! i)) (cnj (pos (poles r ! (i - 1))))))"
proof -
  let ?rs = "roots (ar_poly (ar_coeffs hasTheta0 theta))"
  let ?c = "compute_psd roots aggregate hasTheta0 theta wn k"
  have m: "Max (set (map cmod ?rs)) < 99 / 100"
    using assms by (subst Max_less_iff) auto
  obtain r where r: "?c = Inr r"
    using compute_psd_returns[of roots hasTheta0 theta aggregate wn k, OF assms(1) m] by blast
  let ?P = "\<lambda>i. isclose (pos (poles r ! i)) (cnj (pos (poles r ! (i - 1))))"
  from contribution_count_returned[OF r]
  have f: "length (comps r) =
      (if aggregate then 1 + length (filter (\<lambda>i. \<not> ?P i) [1..<length (poles r)])
       else length (poles r))"
    and le: "length (comps r) \<le> length (poles r)"
    and lt: "length (comps r) < length (poles r) \<longleftrightarrow>
               aggregate \<and> (\<exists>i\<in>{1..<length (poles r)}. ?P i)"
    by blast+
  have n: "length (poles r) = length ?rs" by (rule psd_pos(1)[OF r])
  have pair: "length (comps r) < length (poles r)"
    if agg: aggregate and j: "Suc j < length ?rs" "?rs ! Suc j = cnj (?rs ! j)" for j
  proof -
    obtain i where i: "Suc i < length ?rs" "sorted_poles ?rs ! Suc i = cnj (sorted_poles ?rs ! i)"
      using sorted_poles_conjugates_adjacent[OF j] by blast
    have "pos (poles r ! Suc i) = cnj (pos (poles r ! (Suc i - 1)))"
      using i by (simp add: psd_pos_nth[OF r] n)
    then have "?P (Suc i)"
      by (simp only: complex_cnj_cnj isclose_refl)
    moreover have "Suc i \<in> {1..<length (poles r)}" using i(1) by (simp add: n)
    ultimately show ?thesis using lt agg by blast
  qed
  have a: "\<not> aggregate \<longrightarrow> length (comps r) = length (poles r)"
    by (simp add: f)
  have b: "aggregate \<longrightarrow> length (comps r) =
      1 + length (filter (\<lambda>i. \<not> ?P i) [1..<length (poles r)])"
    by (simp add: f)
  have c: "length (comps r) = length (poles r) \<longleftrightarrow>
      \<not> aggregate \<or> (\<forall>i\<in>{1..<length (poles r)}. \<not> ?P i)"
    using le lt by (metis le_neq_implies_less less_irrefl)
  show ?thesis using r n a le pair b c by blast
qed

text \<open>
  A conjugate pair behind an intercept: \<^verbatim>\<open>theta = [10., 0., -0.25]\<close>, the polynomial
  \<open>z\<^sup>2 + 0.25\<close> with the roots \<open>0.5i\<close> and \<open>-0.5i\<close>. The theorem there, with and
  without aggregation: two poles, merged into one array.
\<close>

theorem aggregated_contribution_count_witness:
  "length (poles (projr (compute_psd (\<lambda>p. if p = [1, 0, 1 / 4] then [\<i> / 2, - (\<i> / 2)] else [])
      True True [10, 0, - (1 / 4)] [1] 1))) = 2 \<and>
   length (comps (projr (compute_psd (\<lambda>p. if p = [1, 0, 1 / 4] then [\<i> / 2, - (\<i> / 2)] else [])
      True True [10, 0, - (1 / 4)] [1] 1))) = 1 \<and>
   length (comps (projr (compute_psd (\<lambda>p. if p = [1, 0, 1 / 4] then [\<i> / 2, - (\<i> / 2)] else [])
      False True [10, 0, - (1 / 4)] [1] 1))) = 2"
proof -
  let ?roots = "\<lambda>p::real list. if p = [1, 0, 1 / 4] then [\<i> / 2, - (\<i> / 2)] else []"
  have rs: "?roots (ar_poly (ar_coeffs True [10, 0, - (1 / 4)])) = [\<i> / 2, - (\<i> / 2)]"
    by (simp add: ar_coeffs_def ar_poly_def)
  have small: "\<forall>p\<in>set [\<i> / 2, - (\<i> / 2)]. cmod p < 99 / 100"
    by (simp add: norm_divide)
  have pair: "\<exists>j. Suc j < length [\<i> / 2, - (\<i> / 2)] \<and>
                [\<i> / 2, - (\<i> / 2)] ! Suc j = cnj ([\<i> / 2, - (\<i> / 2)] ! j)"
    by (intro exI[of _ 0]) simp
  have ne: "[\<i> / 2, - (\<i> / 2)] \<noteq> []" by simp
  note T = aggregated_contribution_count[of ?roots True "[10, 0, - (1 / 4)]" _ "[1]" 1,
      unfolded rs, OF ne small]
  from T[of True] pair
  obtain r where r: "compute_psd ?roots True True [10, 0, - (1 / 4)] [1] 1 = Inr r"
    and n: "length (poles r) = length [\<i> / 2, - (\<i> / 2)]"
    and lt: "length (comps r) < length (poles r)"
    and f: "length (comps r) = 1 + length (filter (\<lambda>i. \<not> isclose (pos (poles r ! i))
                (cnj (pos (poles r ! (i - 1))))) [1..<length (poles r)])"
    by blast
  from T[of False]
  obtain r' where r': "compute_psd ?roots False True [10, 0, - (1 / 4)] [1] 1 = Inr r'"
    and n': "length (poles r') = length [\<i> / 2, - (\<i> / 2)]"
    and eq: "length (comps r') = length (poles r')"
    by blast
  have "length (comps r) = 1" using lt f n by simp
  then show ?thesis using r r' n n' eq by simp
qed

text \<open>
  Two close real roots: \<^verbatim>\<open>theta = [1.000001, -0.2500005]\<close>
  (\<open>0.2500005 = 500001 / 2000000\<close>), the polynomial \<open>(z - 0.500001) (z - 0.5)\<close>.
\<close>

lemma close_roots_returns:
  "compute_psd (\<lambda>p. [500001 / 1000000, 1 / 2]) aggregate False
       [1000001 / 1000000, - (500001 / 2000000)] wn k =
     Inr (projr (compute_psd (\<lambda>p. [500001 / 1000000, 1 / 2]) aggregate False
       [1000001 / 1000000, - (500001 / 2000000)] wn k))"
  by (rule compute_psd_returns[where roots="\<lambda>p. [500001 / 1000000, 1 / 2]"]) simp_all

lemma close_roots_sorted:
  "sorted_poles [500001 / 1000000, 1 / 2] = [500001 / 1000000, 1 / 2]"
proof -
  have "angle (1 / 2) = 0" using angle_pos_real[of "1 / 2"] by simp
  moreover have "angle (500001 / 1000000) = 0"
    using angle_pos_real[of "500001 / 1000000"] by simp
  ultimately show ?thesis by (simp add: sorted_poles_def)
qed

text \<open>
  C4 as stated fails: the poles 0.500001 and 0.5 are real and distinct, so no complex-
  conjugate pair is present, yet aggregation returns one array for the two poles.
\<close>

theorem close_real_poles_are_merged:
  "compute_psd (\<lambda>p. [500001 / 1000000, 1 / 2]) True False
       [1000001 / 1000000, - (500001 / 2000000)] [1] 1 =
     Inr (projr (compute_psd (\<lambda>p. [500001 / 1000000, 1 / 2]) True False
       [1000001 / 1000000, - (500001 / 2000000)] [1] 1)) \<and>
   map pos (poles (projr (compute_psd (\<lambda>p. [500001 / 1000000, 1 / 2]) True False
       [1000001 / 1000000, - (500001 / 2000000)] [1] 1))) = [500001 / 1000000, 1 / 2] \<and>
   length (comps (projr (compute_psd (\<lambda>p. [500001 / 1000000, 1 / 2]) True False
       [1000001 / 1000000, - (500001 / 2000000)] [1] 1))) = 1"
proof -
  let ?c = "compute_psd (\<lambda>p. [500001 / 1000000, 1 / 2]) True False
       [1000001 / 1000000, - (500001 / 2000000)] [1] 1"
  have r: "?c = Inr (projr ?c)" by (rule close_roots_returns)
  have p: "map pos (poles (projr ?c)) = [500001 / 1000000, 1 / 2]"
    using psd_pos(2)[OF r] by (simp add: close_roots_sorted)
  have n: "length (poles (projr ?c)) = 2"
    using psd_pos(1)[OF r] by simp
  have "map pos (poles (projr ?c)) ! 0 = 500001 / 1000000"
    "map pos (poles (projr ?c)) ! Suc 0 = 1 / 2"
    unfolding p by simp_all
  then have p0: "pos (poles (projr ?c) ! 0) = 500001 / 1000000"
    and p1: "pos (poles (projr ?c) ! Suc 0) = 1 / 2"
    using n by simp_all
  have close: "isclose (1 / 2) (500001 / 1000000)"
    by (simp add: isclose_def norm_divide)
  have "length (comps (projr ?c)) = 1"
    unfolding contribution_count_aux[OF r] n
    by (simp add: p0 p1 close upt_conv_Cons)
  with r p show ?thesis by blast
qed

subsection \<open>Residues\<close>

lemma others_eq: "others pv i = map ((!) pv) (filter (\<lambda>j. j \<noteq> i) [0..<length pv])"
proof -
  have "enumerate 0 pv = map (\<lambda>j. (j, pv ! j)) [0..<length pv]"
    by (rule nth_equalityI) (simp_all add: nth_enumerate_eq)
  then show ?thesis
    by (simp add: others_def filter_map comp_def)
qed

lemma prod_others:
  "prod_list (map f (others pv i)) = (\<Prod>j\<in>{..<length pv} - {i}. f (pv ! j))"
proof -
  have "distinct (filter (\<lambda>j. j \<noteq> i) [0..<length pv])" by simp
  moreover have "set (filter (\<lambda>j. j \<noteq> i) [0..<length pv]) = {..<length pv} - {i}" by auto
  ultimately show ?thesis
    using prod.distinct_set_conv_list[of "filter (\<lambda>j. j \<noteq> i) [0..<length pv]" "\<lambda>j. f (pv ! j)"]
    by (simp add: others_eq comp_def)
qed

lemma prod_all: "prod_list (map f pv) = (\<Prod>j<length pv. f (pv ! j))"
proof -
  have "map (\<lambda>j. f (pv ! j)) [0..<length pv] = map f pv"
    by (rule nth_equalityI) simp_all
  moreover have "set [0..<length pv] = {..<length pv}" by auto
  ultimately show ?thesis
    using prod.distinct_set_conv_list[of "[0..<length pv]" "\<lambda>j. f (pv ! j)"] by simp
qed

lemma residue_eq:
  "residue pv i =
     (if pv ! i = 0 then None
      else cdiv 1 (pv ! i * (\<Prod>j\<in>{..<length pv} - {i}. pv ! i - pv ! j)
                          * (\<Prod>j<length pv. 1 / pv ! i - cnj (pv ! j))))"
  unfolding residue_def Let_def prod_others
  by (simp only: prod_all)

lemma psd_pole_nth:
  assumes "compute_psd roots aggregate hasTheta0 theta wn k = Inr r" and "i < length (poles r)"
  shows "residual (poles r ! i) =
           residue (sorted_poles (roots (ar_poly (ar_coeffs hasTheta0 theta)))) i"
    and "power_ms (poles r ! i) =
           rscale (variance wn k) (residue (sorted_poles (roots (ar_poly (ar_coeffs hasTheta0 theta)))) i)"
  using assms(2) unfolding psd_fields(3)[OF assms(1)] by simp_all




lemma Max_cmod_less:
  assumes "rs \<noteq> []" and "\<forall>p\<in>set rs. cmod p < b"
  shows "Max (set (map cmod rs)) < b"
  using assms by (subst Max_less_iff) auto





lemma residue_coincident:
  assumes "i < length pv" and "j < length pv" and "i \<noteq> j" and "pv ! i = pv ! j"
  shows "residue pv i = None"
proof -
  have "j \<in> {..<length pv} - {i}" using assms by auto
  moreover have "pv ! i - pv ! j = 0" using assms(4) by simp
  ultimately have "(\<Prod>j\<in>{..<length pv} - {i}. pv ! i - pv ! j) = 0"
    by (subst prod_zero_iff) blast+
  then show ?thesis by (simp add: residue_eq cdiv_def)
qed

lemma pole_comp_nonfinite: "residue pv i = None \<Longrightarrow> pole_comp var fsamp pv i z = None"
  by (simp add: pole_comp_def cadd_def cscale_def split: float64.splits)

text \<open>
  C6 (as amended). Two poles with the same position are not detected: the call returns,
  the factor \<open>p\<^sub>i - p\<^sub>j = 0\<close> stays in the product, and the residue of such a pole, its
  power and (without aggregation) every entry of its contribution array are non-finite.
\<close>

theorem coincident_poles_not_reported:
  assumes "compute_psd roots aggregate hasTheta0 theta wn k = Inr r"
    and "i < length (poles r)" and "j < length (poles r)" and "i \<noteq> j"
    and "pos (poles r ! i) = pos (poles r ! j)"
  shows "compute_psd roots aggregate hasTheta0 theta wn k \<noteq> Inl SingularPoleError \<and>
         residual (poles r ! i) = None \<and>
         power_ms (poles r ! i) = None \<and>
         (\<not> aggregate \<longrightarrow> length (comps r ! i) = 2048 \<and> (\<forall>c\<in>set (comps r ! i). c = None))"
proof -
  let ?pv = "sorted_poles (roots (ar_poly (ar_coeffs hasTheta0 theta)))"
  have n: "length ?pv = length (poles r)"
    by (simp add: psd_pos(1)[OF assms(1)] length_sorted_poles)
  have "?pv ! i = ?pv ! j"
    using assms(5) by (simp only: psd_pos_nth[OF assms(1,2)] psd_pos_nth[OF assms(1,3)])
  then have res: "residue ?pv i = None"
    using assms(2,3,4) by (intro residue_coincident[of i ?pv j]) (simp_all add: n)
  have "residual (poles r ! i) = None"
    by (simp only: psd_pole_nth(1)[OF assms(1,2)] res)
  moreover have "power_ms (poles r ! i) = None"
    by (simp add: psd_pole_nth(2)[OF assms(1,2)] res rscale_def split: float64.splits)
  moreover have "length (comps r ! i) = 2048 \<and> (\<forall>c\<in>set (comps r ! i). c = None)"
    if "\<not> aggregate"
    using that assms(2) n
    by (simp add: psd_fields(4)[OF assms(1)] Let_def length_grid pole_comp_nonfinite[OF res])
  ultimately show ?thesis using assms(1) by simp
qed

text \<open>A double root 0.5: \<^verbatim>\<open>theta = [1., -0.25]\<close>, the polynomial \<open>(z - 0.5)\<^sup>2\<close>.\<close>

lemma double_root_returns:
  "compute_psd (\<lambda>p. [1 / 2, 1 / 2]) aggregate False [1, - (1 / 4)] wn k =
     Inr (projr (compute_psd (\<lambda>p. [1 / 2, 1 / 2]) aggregate False [1, - (1 / 4)] wn k))"
  by (rule compute_psd_returns[where roots="\<lambda>p. [1 / 2, 1 / 2]"]) simp_all

lemma double_root_poles:
  "length (poles (projr (compute_psd (\<lambda>p. [1 / 2, 1 / 2]) aggregate False [1, - (1 / 4)] wn k))) = 2"
  "pos (poles (projr (compute_psd (\<lambda>p. [1 / 2, 1 / 2]) aggregate False [1, - (1 / 4)] wn k)) ! 0) = 1 / 2"
  "pos (poles (projr (compute_psd (\<lambda>p. [1 / 2, 1 / 2]) aggregate False [1, - (1 / 4)] wn k)) ! Suc 0) = 1 / 2"
proof -
  let ?c = "compute_psd (\<lambda>p. [1 / 2, 1 / 2]) aggregate False [1, - (1 / 4)] wn k"
  have r: "?c = Inr (projr ?c)" by (rule double_root_returns)
  show n: "length (poles (projr ?c)) = 2" using psd_pos(1)[OF r] by simp
  have "map pos (poles (projr ?c)) ! 0 = 1 / 2" "map pos (poles (projr ?c)) ! Suc 0 = 1 / 2"
    unfolding psd_pos(2)[OF r] by (simp_all add: sorted_poles_def)
  then show "pos (poles (projr ?c) ! 0) = 1 / 2" "pos (poles (projr ?c) ! Suc 0) = 1 / 2"
    using n by simp_all
qed

text \<open>The theorem at the double root, first pole, without aggregation.\<close>

theorem coincident_poles_not_reported_witness:
  "residual (poles (projr (compute_psd (\<lambda>p. [1 / 2, 1 / 2]) False False [1, - (1 / 4)] [1] 1)) ! 0)
     = None \<and>
   power_ms (poles (projr (compute_psd (\<lambda>p. [1 / 2, 1 / 2]) False False [1, - (1 / 4)] [1] 1)) ! 0)
     = None \<and>
   length (comps (projr (compute_psd (\<lambda>p. [1 / 2, 1 / 2]) False False [1, - (1 / 4)] [1] 1)) ! 0)
     = 2048"
  using coincident_poles_not_reported[OF double_root_returns, of 0 False "[1]" 1 "Suc 0"]
  by (simp add: double_root_poles)

text \<open>
  C6 as stated fails: on the double root the call returns a result instead of raising
  SingularPoleError, and both stored residues are non-finite.
\<close>

theorem double_root_returns_nonfinite_residues:
  "compute_psd (\<lambda>p. [1 / 2, 1 / 2]) True False [1, - (1 / 4)] [1] 1 =
     Inr (projr (compute_psd (\<lambda>p. [1 / 2, 1 / 2]) True False [1, - (1 / 4)] [1] 1)) \<and>
   compute_psd (\<lambda>p. [1 / 2, 1 / 2]) True False [1, - (1 / 4)] [1] 1 \<noteq> Inl SingularPoleError \<and>
   map pos (poles (projr (compute_psd (\<lambda>p. [1 / 2, 1 / 2]) True False [1, - (1 / 4)] [1] 1)))
     = [1 / 2, 1 / 2] \<and>
   map residual (poles (projr (compute_psd (\<lambda>p. [1 / 2, 1 / 2]) True False [1, - (1 / 4)] [1] 1)))
     = [None, None]"
proof -
  let ?c = "compute_psd (\<lambda>p. [1 / 2, 1 / 2]) True False [1, - (1 / 4)] [1] 1"
  have r: "?c = Inr (projr ?c)" by (rule double_root_returns)
  then have e: "?c \<noteq> Inl SingularPoleError" by (metis Inl_Inr_False)
  have p: "map pos (poles (projr ?c)) = [1 / 2, 1 / 2]"
    unfolding psd_pos(2)[OF r] by (simp add: sorted_poles_def)
  have "residue [1 / 2, 1 / 2] 0 = None" "residue [1 / 2, 1 / 2] (Suc 0) = None"
    by (rule residue_coincident[of _ _ "Suc 0"], simp_all)
       (rule residue_coincident[of _ _ 0], simp_all)
  then have "map residual (poles (projr ?c)) = [None, None]"
    unfolding psd_fields(3)[OF r] by (simp add: sorted_poles_def upt_conv_Cons)
  with r e p show ?thesis by blast
qed

subsection \<open>The power spectrum\<close>

lemma variance_over_rate_sign:
  assumes "wn \<noteq> []" and "0 < k"
  shows "not_negative (fdiv (variance wn k) (sampling_rate wn))"
proof -
  let ?m = "sum_list wn / real (length wn)"
  have mean: "np_mean wn = Fin ?m" using assms(1) by (simp add: np_mean_def)
  have k: "positive (Fin k)" using assms(2) by simp
  show ?thesis
  proof (cases "0 \<le> ?m")
    case True
    then have m: "not_negative (Fin ?m)" by simp
    have "not_negative (fpow (Fin ?m) 3)"
      unfolding numeral_3_eq_3 fpow.simps by (intro fmul_sign(1) m) simp
    then have v: "not_negative (variance wn k)"
      unfolding variance_def mean by (intro fmul_sign(1) fdiv_sign(1) k) simp_all
    have "positive (sampling_rate wn)"
    proof (cases "?m = 0")
      case True
      then show ?thesis unfolding sampling_rate_def mean by (simp add: signed_inf_def)
    next
      case False
      with \<open>0 \<le> ?m\<close> have "0 < ?m" by linarith
      then have "0 < 1 / ?m" by (rule divide_pos_pos[OF zero_less_one])
      then have "positive (overflow (1 / ?m))" by (rule overflow_sign(3))
      then show ?thesis
        unfolding sampling_rate_def mean using False by (simp only: fdiv.simps if_False)
    qed
    with v show ?thesis by (rule fdiv_sign(1))
  next
    case False
    then have m: "not_positive (Fin ?m)" and neg: "?m < 0" by simp_all
    have "not_negative (fmul (Fin ?m) (fmul (Fin ?m) (Fin 1)))"
      by (intro fmul_sign(2) fmul_sign(3) m) simp
    then have "not_positive (fpow (Fin ?m) 3)"
      unfolding numeral_3_eq_3 fpow.simps by (intro fmul_sign(3) m)
    then have v: "not_positive (variance wn k)"
      unfolding variance_def mean by (intro fmul_sign(4) fdiv_sign(3) k) simp_all
    have "1 / ?m < 0" using neg by (rule divide_pos_neg[OF zero_less_one])
    then have "negative (overflow (1 / ?m))" by (rule overflow_sign(4))
    moreover have "?m \<noteq> 0" using neg by linarith
    ultimately have "negative (sampling_rate wn)"
      unfolding sampling_rate_def mean by (simp only: fdiv.simps if_False)
    with v show ?thesis by (rule fdiv_sign(2))
  qed
qed

lemma fpow_square_sign: "not_negative (fpow (Fin d) 2)"
proof -
  have "not_negative (fmul (Fin d) (fmul (Fin d) (Fin 1)))"
  proof (cases "0 \<le> d")
    case True
    then show ?thesis by (intro fmul_sign(1)) simp_all
  next
    case False
    then show ?thesis by (intro fmul_sign(2) fmul_sign(3)) simp_all
  qed
  then show ?thesis by (simp only: numeral_2_eq_2 fpow.simps)
qed

lemma not_negative_iff: "not_negative a \<longleftrightarrow> a \<noteq> NInf \<and> (\<forall>x. a = Fin x \<longrightarrow> 0 \<le> x)"
  by (cases a) simp_all

text \<open>
  C9 (as amended). For \<open>k > 0\<close> and a non-empty \<^verbatim>\<open>wn\<close>, no entry of the returned power
  array is negative or \<^verbatim>\<open>-inf\<close>: an entry is a non-negative real, \<^verbatim>\<open>+inf\<close> or
  \<^verbatim>\<open>nan\<close>.
\<close>

theorem powers_not_negative:
  assumes "compute_psd roots aggregate hasTheta0 theta wn k = Inr r"
    and "wn \<noteq> []" and "0 < k" and "i < 2048"
  shows "powers r ! i \<noteq> NInf \<and> (\<forall>x. powers r ! i = Fin x \<longrightarrow> 0 \<le> x)"
proof -
  have "powers r ! i = power_at (variance wn k) (sampling_rate wn) (ar_coeffs hasTheta0 theta)
                         (unit_delay (grid ! i))"
    using assms(4) by (simp add: psd_fields(2)[OF assms(1)] length_grid)
  moreover have "not_negative (power_at (variance wn k) (sampling_rate wn)
                   (ar_coeffs hasTheta0 theta) (unit_delay (grid ! i)))"
    unfolding power_at_def
    by (intro fdiv_sign(4) variance_over_rate_sign assms(2,3) fpow_square_sign)
  ultimately have "not_negative (powers r ! i)" by simp
  then show ?thesis unfolding not_negative_iff .
qed

text \<open>An intercept and one coefficient, \<^verbatim>\<open>theta = [10., 0.5]\<close>, whose only root is 0.5.\<close>

lemma intercept_example_returns:
  "compute_psd (\<lambda>p. if p = [1, - (1 / 2)] then [1 / 2] else []) aggregate True [10, 1 / 2] wn k =
     Inr (projr (compute_psd (\<lambda>p. if p = [1, - (1 / 2)] then [1 / 2] else []) aggregate True
            [10, 1 / 2] wn k))"
  by (rule compute_psd_returns[where roots="\<lambda>p. if p = [1, - (1 / 2)] then [1 / 2] else []"])
     (simp_all add: ar_coeffs_def ar_poly_def)

text \<open>The theorem at that input with \<^verbatim>\<open>wn = [1.]\<close>, \<open>k = 1\<close>, first grid point.\<close>

theorem powers_not_negative_witness:
  "powers (projr (compute_psd (\<lambda>p. if p = [1, - (1 / 2)] then [1 / 2] else []) True True
      [10, 1 / 2] [1] 1)) ! 0 \<noteq> NInf \<and>
   powers (projr (compute_psd (\<lambda>p. if p = [1, - (1 / 2)] then [1 / 2] else []) True True
      [10, 1 / 2] [1] 1)) ! 0 = Fin (4000000 / 9) \<and>
   (0::real) \<le> 4000000 / 9"
proof -
  let ?c = "compute_psd (\<lambda>p. if p = [1, - (1 / 2)] then [1 / 2] else []) True True
      [10, 1 / 2] [1] 1"
  have r: "?c = Inr (projr ?c)" by (rule intercept_example_returns)
  have v: "variance [1] 1 = Fin 1000000"
    by (simp add: variance_def np_mean_def numeral_3_eq_3 overflow_small)
  have p: "powers (projr ?c) ! 0 = Fin (4000000 / 9)"
    by (simp add: psd_fields(2)[OF r] length_grid power_at_def v sampling_rate_1
        first_grid_point ar_coeffs_def example_polyval example_square overflow_small)
  from powers_not_negative[OF r, of 0] p show ?thesis by simp
qed

text \<open>
  C9 as stated fails for a negative \<open>k\<close>: with \<open>k = -1\<close> the last power entry is
  negative.
\<close>

theorem negative_sample_count_negative_power:
  "compute_psd (\<lambda>p. [1 / 2]) True False [1 / 2] [1] (- 1) =
     Inr (projr (compute_psd (\<lambda>p. [1 / 2]) True False [1 / 2] [1] (- 1))) \<and>
   powers (projr (compute_psd (\<lambda>p. [1 / 2]) True False [1 / 2] [1] (- 1))) ! 2047 =
     Fin (- (4000000 / 9))"
proof -
  let ?c = "compute_psd (\<lambda>p. [1 / 2]) True False [1 / 2] [1] (- 1)"
  have r: "?c = Inr (projr ?c)" by (rule example_returns)
  have v: "variance [1] (- 1) = Fin (- 1000000)"
    by (simp add: variance_def np_mean_def numeral_3_eq_3 overflow_small)
  have "powers (projr ?c) ! 2047 = Fin (- (4000000 / 9))"
    by (simp add: psd_fields(2)[OF r] length_grid power_at_def v sampling_rate_1
        last_grid_point ar_coeffs_def example_polyval example_square overflow_small)
  with r show ?thesis by blast
qed

text \<open>
  C1, at the failing input \<^verbatim>\<open>theta = [10., 2.]\<close> with an intercept, \<^verbatim>\<open>wn = [1.]\<close>,
  \<open>k = 1\<close>: a valid input (non-empty \<^verbatim>\<open>wn\<close>, \<open>k > 0\<close>, one AR coefficient) whose
  only root is 2. No power array is returned: line 69 raises TypeError before the
  spectrum is evaluated.
\<close>

theorem valid_unstable_input_returns_no_spectrum:
  "compute_psd (\<lambda>p. if p = [1, - 2] then [2] else []) True True [10, 2] [1] 1 = Inl TypeError"
  by (rule compute_psd_unstable[where roots="\<lambda>p. if p = [1, - 2] then [2] else []"])
     (simp_all add: ar_coeffs_def ar_poly_def)

subsection \<open>The stabilisation step\<close>

text \<open>
  C10 (as amended). When there is at least one root and every root has magnitude
  strictly below 0.99, the stabilisation changes nothing: \<^verbatim>\<open>mod_scale\<close> is the integer
  1, the pole list repeated once is the sorted root list, the coefficients times
  \<^verbatim>\<open>cumprod\<close> of ones are the coefficients, and lines 72-123 run on these unscaled
  values.
\<close>

theorem stable_model_unchanged:
  assumes "roots (ar_poly (ar_coeffs hasTheta0 theta)) \<noteq> []"
    and "\<forall>p\<in>set (roots (ar_poly (ar_coeffs hasTheta0 theta))). cmod p < 99 / 100"
  shows "decay (sorted_poles (roots (ar_poly (ar_coeffs hasTheta0 theta)))) = Inr (PyInt 1) \<and>
         repeat_list 1 (sorted_poles (roots (ar_poly (ar_coeffs hasTheta0 theta)))) =
           sorted_poles (roots (ar_poly (ar_coeffs hasTheta0 theta))) \<and>
         scale_theta 1 (ar_coeffs hasTheta0 theta) = ar_coeffs hasTheta0 theta \<and>
         compute_psd roots aggregate hasTheta0 theta wn k =
           analysis aggregate (variance wn k) (sampling_rate wn) (ar_coeffs hasTheta0 theta)
             (sorted_poles (roots (ar_poly (ar_coeffs hasTheta0 theta))))"
proof -
  let ?rs = "roots (ar_poly (ar_coeffs hasTheta0 theta))"
  have m: "Max (set (map cmod ?rs)) < 99 / 100"
    using assms by (rule Max_cmod_less)
  have ne: "sorted_poles ?rs \<noteq> []" using assms(1) by (simp add: sorted_poles_Nil_iff)
  have "set (map cmod (sorted_poles ?rs)) = set (map cmod ?rs)"
    by (simp add: set_sorted_poles)
  with m have "Max (set (map cmod (sorted_poles ?rs))) < 99 / 100" by simp
  with decay_Cons[OF ne] have "decay (sorted_poles ?rs) = Inr (PyInt 1)" by simp
  then show ?thesis
    using compute_psd_stable[of roots hasTheta0 theta, OF assms(1) m]
    by (simp add: repeat_list_1 scale_theta_1)
qed

text \<open>The theorem at the running example.\<close>

theorem stable_model_unchanged_witness:
  "decay (sorted_poles [1 / 2]) = Inr (PyInt 1) \<and>
   compute_psd (\<lambda>p. [1 / 2]) True False [1 / 2] [1] 1 =
     analysis True (variance [1] 1) (sampling_rate [1]) [1 / 2] (sorted_poles [1 / 2])"
  using stable_model_unchanged[of "\<lambda>p. [1 / 2]" False "[1 / 2]" True "[1]" 1]
  by (simp add: ar_coeffs_def)

text \<open>
  C10 as stated fails at both ends of its range. With no root at all (every root is
  then within 0.99) line 68 raises ValueError. With a root of magnitude exactly 0.99 the
  quotient is the \<^verbatim>\<open>numpy.float64\<close> 1.0, which \<^verbatim>\<open>min\<close> keeps on the tie, and line 69
  raises TypeError.
\<close>

theorem stabilisation_raises_on_boundary_and_empty:
  "compute_psd (\<lambda>p. []) True True [10] [1] 1 = Inl ValueError \<and>
   compute_psd (\<lambda>p. [99 / 100]) True False [99 / 100] [1] 1 = Inl TypeError"
proof -
  have "compute_psd (\<lambda>p. [99 / 100]) True False [99 / 100] [1] 1 = Inl TypeError"
    by (rule compute_psd_unstable[where roots="\<lambda>p. [99 / 100]"]) simp_all
  then show ?thesis by (simp add: compute_psd_no_poles)
qed

text \<open>
  C3, at the failing input \<^verbatim>\<open>theta = [2.]\<close> (one root, 2): \<^verbatim>\<open>mod_scale\<close> is the
  \<^verbatim>\<open>numpy.float64\<close> 0.495 and line 69 raises TypeError instead of scaling the pole to
  0.99. By \<open>compute_psd_unstable\<close> the same happens on every input whose largest root
  magnitude is at least 0.99, so no unstable model is ever stabilised.
\<close>

theorem unstable_model_raises_TypeError:
  "compute_psd (\<lambda>p. [2]) True False [2] [1] 1 = Inl TypeError"
  by (rule compute_psd_unstable[where roots="\<lambda>p. [2]"]) simp_all

end
